theory Spec2Isabelle
  imports Complex_Main "HOL-Library.Log_Nat"
begin

section \<open>Sales-order ELT job: the generator of \<open>elt_bigquery.py\<close> and its task graph\<close>

text \<open>
  The program is one Python module. Its function \<open>generate_and_upload_sales_data\<close> builds
  five lists, turns them into a pandas \<open>DataFrame\<close>, serialises the frame with \<open>to_csv\<close>,
  uploads the text to an object store and prints a line. The module then wires eight
  Airflow tasks into a chain.

  Everything the function computes goes through library calls (\<open>range\<close>, \<open>round\<close>,
  \<open>random.uniform\<close>, Faker, pandas, the \<open>csv\<close> writer, \<open>datetime.date\<close>). Each of them is
  modelled below by what it does on the arguments the program passes; the results of the
  random generators and of the clock are inputs of the model (the record \<open>env\<close>).
  Strings are byte strings: a Python \<open>str\<close> is represented by its UTF-8 encoding.
\<close>

subsection \<open>Python built-ins: \<open>str\<close> of an integer, \<open>range\<close>\<close>

definition digit_char :: "nat \<Rightarrow> char" where
  "digit_char d = ''0123456789'' ! d"

fun str_nat :: "nat \<Rightarrow> string" where
  "str_nat n = (if n < 10 then [digit_char n] else str_nat (n div 10) @ [digit_char (n mod 10)])"

declare str_nat.simps [simp del]

definition str_int :: "int \<Rightarrow> string" where
  "str_int i = (if i < 0 then CHR ''-'' # str_nat (nat (- i)) else str_nat (nat i))"

text \<open>\<open>range(a, b)\<close>: the integers \<open>a, a + 1, ..., b - 1\<close>, none when \<open>b \<le> a\<close>.\<close>

definition py_range :: "int \<Rightarrow> int \<Rightarrow> int list" where
  "py_range a b = map (\<lambda>k. a + int k) [0..<nat (b - a)]"

subsection \<open>\<open>datetime.date\<close>: ordinals and \<open>isoformat\<close>\<close>

text \<open>
  A date is represented by its proleptic Gregorian ordinal (\<open>date.toordinal()\<close>, day 1 is
  0001-01-01, day 3652059 is 9999-12-31); adding a \<open>timedelta\<close> of whole days adds to the
  ordinal. \<open>ord2ymd\<close> follows \<open>datetime._ord2ymd\<close> line by line, and \<open>isoformat\<close> is
  \<open>"%04d-%02d-%02d" % (year, month, day)\<close>, which is also \<open>str\<close> of a date.
\<close>

definition DAYS_IN_MONTH :: "int list" where
  "DAYS_IN_MONTH = [-1, 31, 28, 31, 30, 31, 30, 31, 31, 30, 31, 30, 31]"

definition DAYS_BEFORE_MONTH :: "int list" where
  "DAYS_BEFORE_MONTH = [-1, 0, 31, 59, 90, 120, 151, 181, 212, 243, 273, 304, 334]"

definition days_before_year :: "int \<Rightarrow> int" where
  "days_before_year year = (let y = year - 1 in y * 365 + y div 4 - y div 100 + y div 400)"

definition DI400Y :: int where "DI400Y = days_before_year 401"
definition DI100Y :: int where "DI100Y = days_before_year 101"
definition DI4Y :: int where "DI4Y = days_before_year 5"

definition ord2ymd :: "int \<Rightarrow> int \<times> int \<times> int" where
  "ord2ymd ordinal =
    (let n = ordinal - 1;
         n400 = n div DI400Y; n = n mod DI400Y;
         year = n400 * 400 + 1;
         n100 = n div DI100Y; n = n mod DI100Y;
         n4 = n div DI4Y; n = n mod DI4Y;
         n1 = n div 365; n = n mod 365;
         year = year + n100 * 100 + n4 * 4 + n1
     in if n1 = 4 \<or> n100 = 4 then (year - 1, 12, 31)
        else
          let leapyear = (n1 = 3 \<and> (n4 \<noteq> 24 \<or> n100 = 3));
              month = (n + 50) div 32;
              preceding = DAYS_BEFORE_MONTH ! nat month + (if month > 2 \<and> leapyear then 1 else 0)
          in if preceding > n
             then let month = month - 1;
                      preceding = preceding - (DAYS_IN_MONTH ! nat month + (if month = 2 \<and> leapyear then 1 else 0))
                  in (year, month, n - preceding + 1)
             else (year, month, n - preceding + 1))"

text \<open>\<open>"%0wd" % i\<close>: at least \<open>w\<close> characters, zeros after the sign.\<close>

definition fmt0d :: "nat \<Rightarrow> int \<Rightarrow> string" where
  "fmt0d w i =
     (if i < 0 then CHR ''-'' # replicate (w - 1 - length (str_nat (nat (- i)))) CHR ''0'' @ str_nat (nat (- i))
      else replicate (w - length (str_nat (nat i))) CHR ''0'' @ str_nat (nat i))"

definition isoformat :: "int \<Rightarrow> string" where
  "isoformat ordinal =
     (case ord2ymd ordinal of (y, m, d) \<Rightarrow> fmt0d 4 y @ ''-'' @ fmt0d 2 m @ ''-'' @ fmt0d 2 d)"

text \<open>
  The last step of \<open>ord2ymd\<close> on its own: month and day from the day of the year (counted
  from 0) and the leap-year flag. The proofs below check it on every day of a year.
\<close>

definition month_day :: "int \<Rightarrow> bool \<Rightarrow> int \<times> int" where
  "month_day n leapyear =
     (let month = (n + 50) div 32;
          preceding = DAYS_BEFORE_MONTH ! nat month + (if month > 2 \<and> leapyear then 1 else 0)
      in if preceding > n
         then let month = month - 1;
                  preceding = preceding - (DAYS_IN_MONTH ! nat month + (if month = 2 \<and> leapyear then 1 else 0))
              in (month, n - preceding + 1)
         else (month, n - preceding + 1))"

definition md_ok :: "int \<times> int \<Rightarrow> bool" where
  "md_ok p = (1 \<le> fst p \<and> fst p \<le> 12 \<and> 1 \<le> snd p \<and> snd p \<le> 31)"

subsection \<open>\<open>random.uniform\<close> and \<open>round(x, 2)\<close>\<close>

text \<open>
  A Python float is a binary double. Every double is a rational number, and the model
  computes on rationals: \<open>nearest_double x\<close> is the double nearest to \<open>x\<close>, a tie going to
  the even mantissa, which is the result that IEEE 754 arithmetic gives for an operation
  whose exact result is \<open>x\<close>. \<open>binary_exponent x\<close> is the \<open>e\<close> with \<open>2^e \<le> |x| < 2^(e+1)\<close>
  and a double has 53 significant bits, so its last bit is worth \<open>2^(e - 52)\<close>. Overflow
  and subnormal numbers are left out: the program's values lie between \<open>2^-44\<close> and
  \<open>2^10\<close>.

  \<open>random.random()\<close> returns \<open>k / 2^53\<close> for 53 random bits \<open>k\<close> (the low 53 bits of the
  integer the environment supplies), and \<open>random.uniform(a, b)\<close> is
  \<open>a + (b - a) * random()\<close>, each operation rounded to a double.

  \<open>round(x, 2)\<close> rounds the exact value of \<open>x\<close> to the nearest multiple of 1/100, a tie
  going to the even multiple, and returns the float nearest to that multiple. The model
  keeps the multiple as an integer number of hundredths: \<open>round2 x = k\<close> stands for the
  float nearest to \<open>k / 100\<close>. For such a float (of magnitude below \<open>10^15\<close>) \<open>repr\<close>, which
  pandas uses for a float column written without a \<open>float_format\<close>, is the shortest
  decimal that reads back as the same float: the digits of \<open>k / 100\<close> with no trailing
  zero after the first decimal.
\<close>

definition round_half_even :: "rat \<Rightarrow> int" where
  "round_half_even x =
     (let f = \<lfloor>x\<rfloor>; d = x - of_int f
      in if d < 1 / 2 then f else if 1 / 2 < d then f + 1 else if even f then f else f + 1)"

definition binary_exponent :: "rat \<Rightarrow> int" where
  "binary_exponent x =
     (case quotient_of \<bar>x\<bar> of
        (p, q) \<Rightarrow> let e = bitlen p - bitlen q in if 2 powi e \<le> \<bar>x\<bar> then e else e - 1)"

definition nearest_double :: "rat \<Rightarrow> rat" where
  "nearest_double x =
     (if x = 0 then 0
      else let ulp = 2 powi (binary_exponent x - 52) in of_int (round_half_even (x / ulp)) * ulp)"

definition random_random :: "int \<Rightarrow> rat" where
  "random_random bits = of_int (bits mod 2 ^ 53) / 2 ^ 53"

definition uniform :: "rat \<Rightarrow> rat \<Rightarrow> rat \<Rightarrow> rat" where
  "uniform a b u = nearest_double (a + nearest_double (nearest_double (b - a) * u))"

definition round2 :: "rat \<Rightarrow> int" where
  "round2 x = round_half_even (x * 100)"

definition float_repr :: "int \<Rightarrow> string" where
  "float_repr k =
     (let m = nat \<bar>k\<bar>; frac = m mod 100
      in (if k < 0 then ''-'' else []) @ str_nat (m div 100) @ ''.'' @
         (if frac mod 10 = 0 then [digit_char (frac div 10)]
          else [digit_char (frac div 10), digit_char (frac mod 10)]))"

subsection \<open>Faker, the random generator and the clock\<close>

text \<open>
  The inputs of one run: the \<open>i\<close>-th result of \<open>fake.name()\<close> and of \<open>fake.word()\<close>, the
  random bits behind the \<open>i\<close>-th \<open>random.uniform\<close> and behind the \<open>i\<close>-th
  \<open>fake.date_between\<close>, and the ordinal of \<open>date.today()\<close>, taken to be the same for every
  call of one run.
\<close>

record env =
  fake_name :: "nat \<Rightarrow> string"
  random_bits :: "nat \<Rightarrow> int"
  date_bits :: "nat \<Rightarrow> int"
  fake_word :: "nat \<Rightarrow> string"
  today :: int

text \<open>
  The two forms of date argument the program passes to Faker: \<open>'today'\<close> and a number of
  days such as \<open>'-30d'\<close>. \<open>date_between\<close> returns a date from the start date through the end
  date, chosen by the random bits.
\<close>

datatype date_arg = Today | Days int

definition parse_date :: "int \<Rightarrow> date_arg \<Rightarrow> int" where
  "parse_date tod a = (case a of Today \<Rightarrow> tod | Days n \<Rightarrow> tod + n)"

definition date_between :: "int \<Rightarrow> date_arg \<Rightarrow> date_arg \<Rightarrow> int \<Rightarrow> int" where
  "date_between tod start_date end_date bits =
     (let s = parse_date tod start_date; e = parse_date tod end_date
      in s + bits mod (max (e - s) 0 + 1))"

subsection \<open>The \<open>csv\<close> writer and pandas\<close>

text \<open>
  \<open>csv.writer\<close> with minimal quoting, as pandas configures it: a field holding a comma, a
  double quote or a line break is wrapped in double quotes with its quotes doubled; fields
  are joined by commas and the row ends with a line feed. A row that is one empty field is
  written as two quotes.
\<close>

definition special :: "char \<Rightarrow> bool" where
  "special c = (c = CHR '','' \<or> c = CHR 0x22 \<or> c = CHR 0x0A \<or> c = CHR 0x0D)"

definition quote_field :: "string \<Rightarrow> string" where
  "quote_field f = CHR 0x22 # concat (map (\<lambda>c. if c = CHR 0x22 then [c, c] else [c]) f) @ [CHR 0x22]"

definition field_out :: "string \<Rightarrow> string" where
  "field_out f = (if list_ex special f then quote_field f else f)"

fun join :: "string \<Rightarrow> string list \<Rightarrow> string" where
  "join sep [] = []"
| "join sep [x] = x"
| "join sep (x # y # ys) = x @ sep @ join sep (y # ys)"

definition writerow :: "string list \<Rightarrow> string" where
  "writerow fs = (if fs = [[]] then [CHR 0x22, CHR 0x22] else join '','' (map field_out fs)) @ [CHR 0x0A]"

text \<open>
  A cell of a frame: a Python int, a string, a float (in hundredths, see above) or a date
  (its ordinal). The dict handed to \<open>DataFrame\<close> is an association list, in insertion
  order; pandas raises \<open>ValueError\<close> when the lists differ in length. \<open>to_csv(index=False)\<close>
  writes the column names, then one row per index, each cell as pandas formats its type.
\<close>

datatype cell = PyInt int | PyStr string | PyFloat int | PyDate int

datatype py_error = ValueError string | StorageError string

type_synonym frame = "(string \<times> cell list) list"

definition DataFrame :: "(string \<times> cell list) list \<Rightarrow> py_error + frame" where
  "DataFrame d =
     (if list_all (\<lambda>c. length (snd c) = length (snd (hd d))) d then Inr d
      else Inl (ValueError ''All arrays must be of the same length''))"

definition nrows :: "frame \<Rightarrow> nat" where
  "nrows df = (case df of [] \<Rightarrow> 0 | c # _ \<Rightarrow> length (snd c))"

definition format_cell :: "cell \<Rightarrow> string" where
  "format_cell v = (case v of PyInt i \<Rightarrow> str_int i | PyStr s \<Rightarrow> s
                    | PyFloat k \<Rightarrow> float_repr k | PyDate d \<Rightarrow> isoformat d)"

definition csv_rows :: "frame \<Rightarrow> string list list" where
  "csv_rows df = map fst df # map (\<lambda>i. map (\<lambda>c. format_cell (snd c ! i)) df) [0..<nrows df]"

definition to_csv :: "frame \<Rightarrow> string" where
  "to_csv df = concat (map writerow (csv_rows df))"

subsection \<open>The module: schema, generator, upload\<close>

record field_schema =
  name :: string
  type :: string
  mode :: string

definition schema_fields :: "field_schema list" where
  "schema_fields =
     [\<lparr>name = ''order_id'', type = ''INTEGER'', mode = ''REQUIRED''\<rparr>,
      \<lparr>name = ''customer_name'', type = ''STRING'', mode = ''REQUIRED''\<rparr>,
      \<lparr>name = ''order_amount'', type = ''FLOAT'', mode = ''REQUIRED''\<rparr>,
      \<lparr>name = ''order_date'', type = ''DATE'', mode = ''REQUIRED''\<rparr>,
      \<lparr>name = ''product'', type = ''STRING'', mode = ''REQUIRED''\<rparr>]"

text \<open>The dict \<open>data\<close> of the function: five list comprehensions over \<open>range\<close>.\<close>

definition data :: "env \<Rightarrow> int \<Rightarrow> (string \<times> cell list) list" where
  "data e num_orders =
     [(''order_id'', [PyInt i. i \<leftarrow> py_range 1 (num_orders + 1)]),
      (''customer_name'', [PyStr (fake_name e (nat i)). i \<leftarrow> py_range 0 num_orders]),
      (''order_amount'',
         [PyFloat (round2 (uniform 10 1000 (random_random (random_bits e (nat i))))).
            i \<leftarrow> py_range 0 num_orders]),
      (''order_date'',
         [PyDate (date_between (today e) (Days (- 30)) Today (date_bits e (nat i))).
            i \<leftarrow> py_range 0 num_orders]),
      (''product'', [PyStr (fake_word e (nat i)). i \<leftarrow> py_range 0 num_orders])]"

text \<open>The value of the local variable \<open>csv_data\<close>, or the exception raised before it is set.\<close>

definition csv_data :: "env \<Rightarrow> int \<Rightarrow> py_error + string" where
  "csv_data e num_orders =
     (case DataFrame (data e num_orders) of Inl err \<Rightarrow> Inl err | Inr df \<Rightarrow> Inr (to_csv df))"

text \<open>
  The world the function acts on: the objects of the store, by bucket and path, the lines
  printed so far, and what the storage service answers. \<open>storage.Client()\<close> and
  \<open>upload_from_string\<close> raise when there are no credentials, no such bucket or no
  network; \<open>storage_fault\<close> gives, for a bucket and path, the exception that an upload there
  meets, if any. The function catches nothing, so that exception ends the call, before
  anything is stored or printed. The function has no \<open>return\<close> statement: a call that
  completes evaluates to \<open>None\<close>, and the model gives that value (\<open>Some text\<close> would be a
  returned string) with the new world. \<open>num_orders\<close> is optional, with default 500.
\<close>

record blob =
  content :: string
  content_type :: string

record world =
  gcs :: "string \<times> string \<Rightarrow> blob option"
  stdout :: "string list"
  storage_fault :: "string \<times> string \<Rightarrow> py_error option"

definition upload_from_string ::
  "string \<Rightarrow> string \<Rightarrow> string \<Rightarrow> string \<Rightarrow> world \<Rightarrow> py_error + world" where
  "upload_from_string bucket_name path text ctype w =
     (case storage_fault w (bucket_name, path) of
        Some err \<Rightarrow> Inl err
      | None \<Rightarrow>
          Inr (w\<lparr>gcs := (gcs w)((bucket_name, path) \<mapsto> \<lparr>content = text, content_type = ctype\<rparr>)\<rparr>))"

definition print :: "string \<Rightarrow> world \<Rightarrow> world" where
  "print line w = w\<lparr>stdout := stdout w @ [line]\<rparr>"

definition generate_and_upload_sales_data ::
  "env \<Rightarrow> string \<Rightarrow> string \<Rightarrow> int option \<Rightarrow> world \<Rightarrow> py_error + (string option \<times> world)" where
  "generate_and_upload_sales_data e bucket_name gcs_path num_orders_arg w =
     (let num_orders = (case num_orders_arg of None \<Rightarrow> 500 | Some n \<Rightarrow> n)
      in case csv_data e num_orders of
           Inl err \<Rightarrow> Inl err
         | Inr text \<Rightarrow>
             (case upload_from_string bucket_name gcs_path text ''text/csv'' w of
                Inl err \<Rightarrow> Inl err
              | Inr w1 \<Rightarrow>
                  Inr (None, print (''Data uploaded to gs://'' @ bucket_name @ ''/'' @ gcs_path) w1)))"

subsection \<open>The task graph\<close>

text \<open>
  The eight operators of the DAG, named as the module's variables. \<open>a >> b\<close> makes \<open>b\<close> a
  downstream task of \<open>a\<close> and evaluates to \<open>b\<close>, so a chain of \<open>>>\<close> is a left fold.
  No task sets a trigger rule, so the scheduler starts a task only once all of its
  upstream tasks have succeeded, and runs no task twice in one DAG run; \<open>scheduled\<close> says
  that a sequence of task starts obeys this.
\<close>

datatype task =
  start_task | generate_sales_data | load_to_bigquery | insert_sales_orders_task
  | call_procedure_task | transform_bq_data | transform_bq_data_2 | end_task

datatype operator =
  EmptyOperator
  | PythonOperator "int option"
  | LoadJob
  | QueryJob string "string option"

text \<open>
  What each task runs: the Python callable with \<open>num_orders = 500\<close>, the load job, or a
  query (named by the variable holding its SQL) with its destination table, if any.
\<close>

fun operator_of :: "task \<Rightarrow> operator" where
  "operator_of start_task = EmptyOperator"
| "operator_of generate_sales_data = PythonOperator (Some 500)"
| "operator_of load_to_bigquery = LoadJob"
| "operator_of insert_sales_orders_task = QueryJob ''insert_sales_orders'' None"
| "operator_of call_procedure_task = QueryJob ''call_procedure'' None"
| "operator_of transform_bq_data = QueryJob ''transform_bq_qry'' (Some ''TRANSFORMED_TABLE'')"
| "operator_of transform_bq_data_2 = QueryJob ''transform_bq_qry_2'' (Some ''AMOUNT_TABLE'')"
| "operator_of end_task = EmptyOperator"

definition rshift :: "task \<times> (task \<times> task) list \<Rightarrow> task \<Rightarrow> task \<times> (task \<times> task) list" where
  "rshift p t = (t, snd p @ [(fst p, t)])"

definition dag :: "(task \<times> task) list" where
  "dag = snd (foldl rshift (start_task, [])
            [generate_sales_data, load_to_bigquery, insert_sales_orders_task,
             call_procedure_task, transform_bq_data, transform_bq_data_2, end_task])"

definition upstream_done :: "(task \<times> task) list \<Rightarrow> task list \<Rightarrow> task \<Rightarrow> bool" where
  "upstream_done g finished t = list_all (\<lambda>edge. snd edge = t \<longrightarrow> fst edge \<in> set finished) g"

fun scheduled :: "(task \<times> task) list \<Rightarrow> task list \<Rightarrow> task list \<Rightarrow> bool" where
  "scheduled g finished [] = True"
| "scheduled g finished (t # ts) =
     (t \<notin> set finished \<and> upstream_done g finished t \<and> scheduled g (finished @ [t]) ts)"

subsection \<open>Reading the payload back\<close>

text \<open>
  To speak of the rows and fields of the CSV text, a reader for the writer's dialect:
  commas separate fields, a line feed ends a row, a field that starts with a double quote
  runs to the closing quote, with two quotes standing for one.
\<close>

datatype rstate = Unquoted | Quoted | QuoteSeen

fun reader :: "rstate \<Rightarrow> string \<Rightarrow> string list \<Rightarrow> string \<Rightarrow> string list list" where
  "reader st fld row [] = (if st = Unquoted \<and> fld = [] \<and> row = [] then [] else [rev (rev fld # row)])"
| "reader Unquoted fld row (c # cs) =
     (if c = CHR '','' then reader Unquoted [] (rev fld # row) cs
      else if c = CHR 0x0A then rev (rev fld # row) # reader Unquoted [] [] cs
      else if c = CHR 0x22 \<and> fld = [] then reader Quoted [] row cs
      else reader Unquoted (c # fld) row cs)"
| "reader Quoted fld row (c # cs) =
     (if c = CHR 0x22 then reader QuoteSeen fld row cs else reader Quoted (c # fld) row cs)"
| "reader QuoteSeen fld row (c # cs) =
     (if c = CHR 0x22 then reader Quoted (c # fld) row cs
      else if c = CHR '','' then reader Unquoted [] (rev fld # row) cs
      else if c = CHR 0x0A then rev (rev fld # row) # reader Unquoted [] [] cs
      else reader Unquoted (c # fld) row cs)"

definition read_csv :: "string \<Rightarrow> string list list" where
  "read_csv text = reader Unquoted [] [] text"

text \<open>The rows read from the payload of a run; no rows when the run raised.\<close>

definition payload_rows :: "env \<Rightarrow> int \<Rightarrow> string list list" where
  "payload_rows e num_orders = (case csv_data e num_orders of Inl err \<Rightarrow> [] | Inr text \<Rightarrow> read_csv text)"

definition is_digit :: "char \<Rightarrow> bool" where
  "is_digit c = (c \<in> set ''0123456789'')"

text \<open>\<open>YYYY-MM-DD\<close>: four digits, a hyphen, two digits, a hyphen, two digits.\<close>

definition is_iso_date :: "string \<Rightarrow> bool" where
  "is_iso_date s =
     (length s = 10 \<and> s ! 4 = CHR ''-'' \<and> s ! 7 = CHR ''-'' \<and> list_all is_digit (take 4 s)
      \<and> list_all is_digit (take 2 (drop 5 s)) \<and> list_all is_digit (drop 8 s))"

text \<open>The number of characters after the first decimal point (0 when there is none).\<close>

definition decimal_places :: "string \<Rightarrow> nat" where
  "decimal_places s = length (tl (dropWhile (\<lambda>c. c \<noteq> CHR ''.'') s))"

text \<open>A decimal numeral: digits, a point, digits.\<close>

definition is_decimal :: "string \<Rightarrow> bool" where
  "is_decimal s =
     (let ip = takeWhile (\<lambda>c. c \<noteq> CHR ''.'') s; rest = dropWhile (\<lambda>c. c \<noteq> CHR ''.'') s
      in ip \<noteq> [] \<and> list_all is_digit ip \<and> rest \<noteq> [] \<and> tl rest \<noteq> [] \<and> list_all is_digit (tl rest))"

text \<open>
  The \<open>i\<close>-th generated record (counted from 0), field by field, and the five fields as
  \<open>to_csv\<close> formats them.
\<close>

definition order_amount :: "env \<Rightarrow> nat \<Rightarrow> int" where
  "order_amount e i = round2 (uniform 10 1000 (random_random (random_bits e i)))"

definition order_date :: "env \<Rightarrow> nat \<Rightarrow> int" where
  "order_date e i = date_between (today e) (Days (- 30)) Today (date_bits e i)"

definition csv_row :: "env \<Rightarrow> nat \<Rightarrow> string list" where
  "csv_row e i =
     [str_int (1 + int i), fake_name e i, float_repr (order_amount e i),
      isoformat (order_date e i), fake_word e i]"

definition header :: "string list" where
  "header = [''order_id'', ''customer_name'', ''order_amount'', ''order_date'', ''product'']"

text \<open>
  A sample environment: the same name and word at every call, random bits that give the
  uniform samples \<open>257.5\<close>, \<open>381.25\<close>, \<open>505.0\<close>, ..., date choices \<open>0, 1, 2, ...\<close>, and
  2026-11-04 as today.
\<close>

definition sample_env :: env where
  "sample_env = \<lparr>fake_name = (\<lambda>i. ''Ann Lee''), random_bits = (\<lambda>i. (2 + int i) * 2 ^ 50),
                 date_bits = (\<lambda>i. int i), fake_word = (\<lambda>i. ''table''), today = 739924\<rparr>"

text \<open>
  Two worlds with nothing stored and nothing printed: one where the store accepts every
  upload, one where the storage client has no credentials.
\<close>

definition empty_world :: world where
  "empty_world = \<lparr>gcs = (\<lambda>k. None), stdout = [], storage_fault = (\<lambda>k. None)\<rparr>"

definition no_credentials_world :: world where
  "no_credentials_world =
     \<lparr>gcs = (\<lambda>k. None), stdout = [],
      storage_fault = (\<lambda>k. Some (StorageError ''DefaultCredentialsError''))\<rparr>"

definition chain :: "task list" where
  "chain = [start_task, generate_sales_data, load_to_bigquery, insert_sales_orders_task,
            call_procedure_task, transform_bq_data, transform_bq_data_2, end_task]"

section \<open>Properties\<close>

subsection \<open>Digits and padded numbers\<close>

lemma digit_char_is_digit: "d < 10 \<Longrightarrow> is_digit (digit_char d)"
  unfolding is_digit_def digit_char_def by (rule nth_mem) simp

lemma str_nat_digits: "list_all is_digit (str_nat n)"
proof (induction n rule: str_nat.induct)
  case (1 n)
  show ?case
  proof (cases "n < 10")
    case True
    then show ?thesis by (subst str_nat.simps) (simp add: digit_char_is_digit)
  next
    case False
    then show ?thesis using 1 by (subst str_nat.simps) (simp add: digit_char_is_digit)
  qed
qed

lemma str_nat_nonempty: "str_nat n \<noteq> []"
  by (subst str_nat.simps) simp

lemma str_nat_length: "0 < k \<Longrightarrow> n < 10 ^ k \<Longrightarrow> length (str_nat n) \<le> k"
proof (induction k arbitrary: n)
  case 0
  then show ?case by simp
next
  case (Suc k)
  show ?case
  proof (cases "n < 10")
    case True
    then show ?thesis by (subst str_nat.simps) simp
  next
    case False
    then have k: "0 < k" using Suc.prems by (cases k) auto
    have "n div 10 < 10 ^ k" using Suc.prems by (simp add: less_mult_imp_div_less mult.commute)
    then have "length (str_nat (n div 10)) \<le> k" using Suc.IH k by simp
    then show ?thesis using False by (subst str_nat.simps) simp
  qed
qed

lemma is_digit_not_point: "is_digit c \<Longrightarrow> c \<noteq> CHR ''.''"
  by (auto simp: is_digit_def)

lemma str_int_nonempty: "str_int i \<noteq> []"
  by (simp add: str_int_def str_nat_nonempty)

lemma fmt0d_shape:
  assumes "0 \<le> i" "i < 10 ^ w" "0 < w"
  shows "length (fmt0d w i) = w \<and> list_all is_digit (fmt0d w i)"
proof -
  have "nat i < 10 ^ w" using assms by (simp add: nat_less_iff)
  then have "length (str_nat (nat i)) \<le> w" using assms(3) by (rule str_nat_length [rotated])
  moreover have "is_digit CHR ''0''" by (simp add: is_digit_def)
  ultimately show ?thesis using assms(1) str_nat_digits [of "nat i"]
    by (auto simp: fmt0d_def list_all_iff)
qed

subsection \<open>Dates: every ordinal of a valid date yields a year, month and day in range\<close>

lemma DI_simps: "DI400Y = 146097" "DI100Y = 36524" "DI4Y = 1461"
  by (simp_all add: DI400Y_def DI100Y_def DI4Y_def days_before_year_def)

lemma month_day_table: "list_all (\<lambda>n. md_ok (month_day n True) \<and> md_ok (month_day n False)) [0..364]"
  by code_simp

lemma month_day_ok: "0 \<le> n \<Longrightarrow> n < 365 \<Longrightarrow> md_ok (month_day n leap)"
proof -
  assume "0 \<le> n" "n < 365"
  then have "n \<in> set [0..364]" by simp
  with month_day_table show ?thesis
    unfolding list_all_iff by (cases leap) auto
qed

lemma ord2ymd_unfold:
  "ord2ymd ordinal =
     (if (ordinal - 1) mod 146097 mod 36524 mod 1461 div 365 = 4 \<or> (ordinal - 1) mod 146097 div 36524 = 4
      then ((ordinal - 1) div 146097 * 400 + 1 + (ordinal - 1) mod 146097 div 36524 * 100
              + (ordinal - 1) mod 146097 mod 36524 div 1461 * 4
              + (ordinal - 1) mod 146097 mod 36524 mod 1461 div 365 - 1, 12, 31)
      else ((ordinal - 1) div 146097 * 400 + 1 + (ordinal - 1) mod 146097 div 36524 * 100
              + (ordinal - 1) mod 146097 mod 36524 div 1461 * 4
              + (ordinal - 1) mod 146097 mod 36524 mod 1461 div 365,
            month_day ((ordinal - 1) mod 146097 mod 36524 mod 1461 mod 365)
              ((ordinal - 1) mod 146097 mod 36524 mod 1461 div 365 = 3 \<and>
               ((ordinal - 1) mod 146097 mod 36524 div 1461 \<noteq> 24 \<or> (ordinal - 1) mod 146097 div 36524 = 3))))"
  unfolding ord2ymd_def month_day_def DI_simps Let_def if_distrib [of "Pair a" for a]
  by (rule refl)

lemma year_bounds:
  fixes n a b c e r1 r2 r3 r4 :: int
  assumes n: "0 \<le> n" "n \<le> 3652058"
    and 1: "n = 146097 * a + r1" "0 \<le> r1" "r1 < 146097"
    and 2: "r1 = 36524 * b + r2" "0 \<le> r2" "r2 < 36524"
    and 3: "r2 = 1461 * c + r3" "0 \<le> r3" "r3 < 1461"
    and 4: "r3 = 365 * e + r4" "0 \<le> r4" "r4 < 365"
  shows "0 \<le> a * 400 + b * 100 + c * 4 + e \<and> a * 400 + b * 100 + c * 4 + e \<le> 9998"
proof -
  have a: "0 \<le> a" "a \<le> 24" using n 1 by linarith+
  have b: "0 \<le> b" "b \<le> 4" using 1 2 by linarith+
  have c: "0 \<le> c" "c \<le> 24" using 2 3 by linarith+
  have e: "0 \<le> e" "e \<le> 4" using 3 4 by linarith+
  have lo: "0 \<le> a * 400 + b * 100 + c * 4 + e" using a b c e by linarith
  have hi: "a * 400 + b * 100 + c * 4 + e \<le> 9998"
  proof (cases "a \<le> 23")
    case True
    then show ?thesis using b c e by linarith
  next
    case False
    then have a24: "a = 24" using a by linarith
    then have r1: "r1 \<le> 145730" using n 1 by linarith
    then have b3: "b \<le> 3" using 2 by linarith
    show ?thesis
    proof (cases "b \<le> 2")
      case True
      then show ?thesis using a24 c e by linarith
    next
      case False
      then have b3': "b = 3" using b3 by linarith
      then have r2: "r2 \<le> 36158" using r1 2 by linarith
      show ?thesis
      proof (cases "c \<le> 23")
        case True
        then show ?thesis using a24 b3' e by linarith
      next
        case False
        then have c24: "c = 24" using c by linarith
        then have "r3 \<le> 1094" using r2 3 by linarith
        then have "e \<le> 2" using 4 by linarith
        then show ?thesis using a24 b3' c24 by linarith
      qed
    qed
  qed
  show ?thesis using lo hi by simp
qed

lemma ord2ymd_range:
  assumes "1 \<le> n" "n \<le> 3652059"
  shows "1 \<le> fst (ord2ymd n) \<and> fst (ord2ymd n) \<le> 9999 \<and> md_ok (snd (ord2ymd n))"
proof -
  define a where "a = (n - 1) div 146097"
  define r1 where "r1 = (n - 1) mod 146097"
  define b where "b = r1 div 36524"
  define r2 where "r2 = r1 mod 36524"
  define c where "c = r2 div 1461"
  define r3 where "r3 = r2 mod 1461"
  define e where "e = r3 div 365"
  define r4 where "r4 = r3 mod 365"
  have r: "0 \<le> r1" "r1 < 146097" "0 \<le> r2" "r2 < 36524" "0 \<le> r3" "r3 < 1461" "0 \<le> r4" "r4 < 365"
    by (simp_all add: r1_def r2_def r3_def r4_def)
  have d: "n - 1 = 146097 * a + r1" "r1 = 36524 * b + r2" "r2 = 1461 * c + r3" "r3 = 365 * e + r4"
    by (simp_all add: a_def r1_def b_def r2_def c_def r3_def e_def r4_def)
  have n: "0 \<le> n - 1" "n - 1 \<le> 3652058" using assms by simp_all
  have yb: "0 \<le> a * 400 + b * 100 + c * 4 + e \<and> a * 400 + b * 100 + c * 4 + e \<le> 9998"
    by (rule year_bounds [OF n d(1) r(1,2) d(2) r(3,4) d(3) r(5,6) d(4) r(7,8)])
  have be: "0 \<le> a" "0 \<le> b" "0 \<le> c" "0 \<le> e"
    using n r by (simp_all add: a_def b_def c_def e_def pos_imp_zdiv_nonneg_iff)
  have eq: "ord2ymd n =
     (if e = 4 \<or> b = 4 then (a * 400 + 1 + b * 100 + c * 4 + e - 1, 12, 31)
      else (a * 400 + 1 + b * 100 + c * 4 + e, month_day r4 (e = 3 \<and> (c \<noteq> 24 \<or> b = 3))))"
    unfolding ord2ymd_unfold a_def r1_def b_def r2_def c_def r3_def e_def r4_def ..
  show ?thesis
  proof (cases "e = 4 \<or> b = 4")
    case True
    then have "1 \<le> a * 400 + b * 100 + c * 4 + e" using be by auto
    then show ?thesis using True yb by (simp add: eq md_ok_def)
  next
    case False
    then show ?thesis using yb month_day_ok [OF r(7,8)] by (simp add: eq)
  qed
qed

subsection \<open>The reader undoes the writer\<close>

lemma reader_plain:
  "\<not> list_ex special f \<Longrightarrow> reader Unquoted fld row (f @ rest) = reader Unquoted (rev f @ fld) row rest"
  by (induction f arbitrary: fld) (auto simp: special_def)

lemma reader_quoted:
  "reader Quoted fld row (concat (map (\<lambda>c. if c = CHR 0x22 then [c, c] else [c]) f) @ CHR 0x22 # rest)
     = reader QuoteSeen (rev f @ fld) row rest"
  by (induction f arbitrary: fld) auto

lemma reader_field_comma:
  "reader Unquoted [] row (field_out f @ CHR '','' # rest) = reader Unquoted [] (f # row) rest"
  by (simp add: field_out_def quote_field_def reader_plain reader_quoted)

lemma reader_field_newline:
  "reader Unquoted [] row (field_out f @ CHR 0x0A # rest) = rev (f # row) # reader Unquoted [] [] rest"
  by (simp add: field_out_def quote_field_def reader_plain reader_quoted)

lemma reader_join:
  "fs \<noteq> [] \<Longrightarrow> reader Unquoted [] row (join '','' (map field_out fs) @ CHR 0x0A # rest)
     = rev (rev fs @ row) # reader Unquoted [] [] rest"
proof (induction fs arbitrary: row)
  case Nil
  then show ?case by simp
next
  case (Cons f fs)
  show ?case
  proof (cases fs)
    case Nil
    then show ?thesis by (simp add: reader_field_newline)
  next
    case (Cons g gs)
    then show ?thesis using Cons.IH [of "f # row"] by (simp add: reader_field_comma)
  qed
qed

lemma reader_writerow:
  "fs \<noteq> [] \<Longrightarrow> reader Unquoted [] [] (writerow fs @ rest) = fs # reader Unquoted [] [] rest"
  using reader_join [of fs "[]" rest] by (auto simp: writerow_def)

lemma read_csv_writerows:
  "\<forall>r \<in> set rows. r \<noteq> [] \<Longrightarrow> read_csv (concat (map writerow rows)) = rows"
  unfolding read_csv_def by (induction rows) (simp_all add: reader_writerow)

subsection \<open>Rendered dates and amounts\<close>

lemma isoformat_nonempty: "isoformat n \<noteq> []"
  by (simp add: isoformat_def split: prod.splits)

lemma isoformat_shape:
  assumes "1 \<le> n" "n \<le> 3652059"
  shows "is_iso_date (isoformat n)"
proof -
  obtain y m d where ymd: "ord2ymd n = (y, m, d)" by (cases "ord2ymd n") auto
  from ord2ymd_range [OF assms] ymd
  have r: "1 \<le> y" "y \<le> 9999" "1 \<le> m" "m \<le> 12" "1 \<le> d" "d \<le> 31"
    by (simp_all add: md_ok_def)
  have Y: "length (fmt0d 4 y) = 4 \<and> list_all is_digit (fmt0d 4 y)"
    using r by (intro fmt0d_shape) simp_all
  have M: "length (fmt0d 2 m) = 2 \<and> list_all is_digit (fmt0d 2 m)"
    using r by (intro fmt0d_shape) simp_all
  have D: "length (fmt0d 2 d) = 2 \<and> list_all is_digit (fmt0d 2 d)"
    using r by (intro fmt0d_shape) simp_all
  show ?thesis
    using Y M D by (simp add: isoformat_def ymd is_iso_date_def nth_append)
qed

lemma float_repr_split:
  "0 \<le> k \<Longrightarrow> float_repr k = str_nat (nat k div 100) @ CHR ''.'' #
     (if k mod 10 = 0 then [digit_char (nat k mod 100 div 10)]
      else [digit_char (nat k mod 100 div 10), digit_char (nat k mod 10)])"
proof -
  assume k: "0 \<le> k"
  have a: "nat k mod 100 mod 10 = nat k mod 10" by (simp add: mod_mod_cancel)
  have b: "(nat k mod 10 = 0) = (k mod 10 = 0)" using k by presburger
  show ?thesis using k by (simp add: float_repr_def Let_def a b)
qed

lemma dropWhile_digits_point:
  "list_all is_digit ds \<Longrightarrow> dropWhile (\<lambda>c. c \<noteq> CHR ''.'') (ds @ CHR ''.'' # rest) = CHR ''.'' # rest"
  by (induction ds) (auto dest: is_digit_not_point)

lemma takeWhile_digits_point:
  "list_all is_digit ds \<Longrightarrow> takeWhile (\<lambda>c. c \<noteq> CHR ''.'') (ds @ CHR ''.'' # rest) = ds"
  by (induction ds) (auto dest: is_digit_not_point)

lemma float_repr_places:
  "0 \<le> k \<Longrightarrow> decimal_places (float_repr k) = (if k mod 10 = 0 then 1 else 2)"
  by (simp add: float_repr_split decimal_places_def dropWhile_digits_point str_nat_digits)

lemma float_repr_decimal: "0 \<le> k \<Longrightarrow> is_decimal (float_repr k)"
  by (simp add: float_repr_split is_decimal_def Let_def dropWhile_digits_point takeWhile_digits_point
      str_nat_digits str_nat_nonempty digit_char_is_digit)

lemma float_repr_nonempty: "float_repr k \<noteq> []"
  by (simp add: float_repr_def Let_def)

subsection \<open>Amounts and dates of a batch\<close>

text \<open>
  Rounding to a double never crosses a double: the sample of \<open>random.uniform(10.0,
  1000.0)\<close> stays from 10 to \<open>1000 - 2^-43\<close>, the largest double below 1000.
\<close>

lemma round_half_even_lower: "of_int n \<le> x \<Longrightarrow> n \<le> round_half_even x"
proof -
  assume "of_int n \<le> x"
  then have "n \<le> \<lfloor>x\<rfloor>" by (simp add: le_floor_iff)
  then show ?thesis by (auto simp: round_half_even_def Let_def)
qed

lemma round_half_even_upper: "x \<le> of_int n \<Longrightarrow> round_half_even x \<le> n"
proof (cases "x = of_int n")
  case True
  then show ?thesis by (simp add: round_half_even_def)
next
  case False
  assume "x \<le> of_int n"
  with False have "x < of_int n" by simp
  then have "\<lfloor>x\<rfloor> < n" by (simp add: floor_less_iff)
  then show ?thesis by (auto simp: round_half_even_def Let_def)
qed

lemma round_half_even_below_half: "x < of_int n + 1 / 2 \<Longrightarrow> round_half_even x \<le> n"
proof -
  assume a: "x < of_int n + 1 / 2"
  then have "x < of_int (n + 1)" by simp
  then have "\<lfloor>x\<rfloor> < n + 1" by (simp only: floor_less_iff)
  then have f: "\<lfloor>x\<rfloor> \<le> n" by simp
  show ?thesis
  proof (cases "\<lfloor>x\<rfloor> = n")
    case True
    then have "x - of_int \<lfloor>x\<rfloor> < 1 / 2" using a by simp
    then show ?thesis using True by (simp add: round_half_even_def Let_def)
  next
    case False
    then have "\<lfloor>x\<rfloor> + 1 \<le> n" using f by simp
    then show ?thesis by (auto simp: round_half_even_def Let_def)
  qed
qed

lemma round_half_even_of_int: "round_half_even (of_int m) = m"
  by (simp add: round_half_even_def)

lemma binary_exponent_bounds:
  assumes "0 < x"
  shows "2 powi binary_exponent x \<le> x \<and> x < 2 powi (binary_exponent x + 1)"
proof -
  obtain p q where pq: "quotient_of x = (p, q)" by (cases "quotient_of x") auto
  then have q: "0 < q" and x: "x = of_int p / of_int q"
    using quotient_of_denom_pos quotient_of_div by blast+
  have p: "0 < p" using assms q x by (simp add: zero_less_divide_iff)
  define bp where "bp = bitlen p" define bq where "bq = bitlen q"
  have bp1: "1 \<le> bp" and bq1: "1 \<le> bq"
    using p q bitlen_eq_zero_iff [of p] bitlen_eq_zero_iff [of q] bitlen_nonneg [of p] bitlen_nonneg [of q]
    unfolding bp_def bq_def by linarith+
  from bitlen_bounds [OF p] have P: "2 ^ nat (bp - 1) \<le> p" "p < 2 ^ nat bp" by (simp_all add: bp_def)
  from bitlen_bounds [OF q] have Q: "2 ^ nat (bq - 1) \<le> q" "q < 2 ^ nat bq" by (simp_all add: bq_def)
  have Pr: "(2::rat) powi (bp - 1) \<le> of_int p" "(of_int p :: rat) < 2 powi bp"
  proof -
    have "(of_int (2 ^ nat (bp - 1)) :: rat) \<le> of_int p" using P(1) by (simp only: of_int_le_iff)
    then show "(2::rat) powi (bp - 1) \<le> of_int p" using bp1 by (simp add: power_int_def)
    have "(of_int p :: rat) < of_int (2 ^ nat bp)" using P(2) by (simp only: of_int_less_iff)
    then show "(of_int p :: rat) < 2 powi bp" using bp1 by (simp add: power_int_def)
  qed
  have Qr: "(2::rat) powi (bq - 1) \<le> of_int q" "(of_int q :: rat) < 2 powi bq"
  proof -
    have "(of_int (2 ^ nat (bq - 1)) :: rat) \<le> of_int q" using Q(1) by (simp only: of_int_le_iff)
    then show "(2::rat) powi (bq - 1) \<le> of_int q" using bq1 by (simp add: power_int_def)
    have "(of_int q :: rat) < of_int (2 ^ nat bq)" using Q(2) by (simp only: of_int_less_iff)
    then show "(of_int q :: rat) < 2 powi bq" using bq1 by (simp add: power_int_def)
  qed
  have qpos: "(0::rat) < of_int q" using q by simp
  have ppos: "(0::rat) < of_int p" using p by simp
  have up: "x < 2 powi (bp - bq + 1)"
  proof -
    have "of_int p < (2::rat) powi bp" by (rule Pr(2))
    also have "\<dots> = 2 powi (bp - bq + 1) * 2 powi (bq - 1)" by (simp flip: power_int_add)
    also have "\<dots> \<le> 2 powi (bp - bq + 1) * of_int q" using Qr(1) by (intro mult_left_mono) simp_all
    finally show ?thesis using qpos by (simp add: x pos_divide_less_eq)
  qed
  have lo: "2 powi (bp - bq - 1) < x"
  proof -
    have "(2::rat) powi (bp - bq - 1) * of_int q < 2 powi (bp - bq - 1) * 2 powi bq"
      using Qr(2) by (intro mult_strict_left_mono) simp_all
    also have "\<dots> = 2 powi (bp - 1)" by (simp flip: power_int_add)
    also have "\<dots> \<le> of_int p" by (rule Pr(1))
    finally show ?thesis using qpos by (simp add: x pos_less_divide_eq)
  qed
  have e: "binary_exponent x = (if 2 powi (bp - bq) \<le> x then bp - bq else bp - bq - 1)"
    using assms by (simp add: binary_exponent_def pq bp_def bq_def Let_def)
  show ?thesis
  proof (cases "2 powi (bp - bq) \<le> x")
    case True
    then show ?thesis using up by (simp add: e)
  next
    case False
    then show ?thesis using lo by (simp add: e)
  qed
qed

lemma binary_exponent_unique:
  assumes "0 < x" "2 powi e \<le> x" "x < 2 powi (e + 1)"
  shows "binary_exponent x = e"
proof -
  from binary_exponent_bounds [OF assms(1)] have b: "2 powi binary_exponent x \<le> x" "x < 2 powi (binary_exponent x + 1)" by simp_all
  have lt: "(2::rat) powi a < 2 powi b \<Longrightarrow> a < b" for a b :: int
  proof (rule ccontr)
    assume l: "(2::rat) powi a < 2 powi b" and "\<not> a < b"
    then have "b \<le> a" by simp
    then have "(2::rat) powi b \<le> 2 powi a" by (intro power_int_increasing) simp_all
    with l show False by simp
  qed
  have "(2::rat) powi e < 2 powi (binary_exponent x + 1)" using assms(2) b(2) by simp
  then have 1: "e < binary_exponent x + 1" by (rule lt)
  have "(2::rat) powi binary_exponent x < 2 powi (e + 1)" using assms(3) b(1) by simp
  then have 2: "binary_exponent x < e + 1" by (rule lt)
  show ?thesis using 1 2 by simp
qed


lemma powi_pos: "(0::rat) < 2 powi e"
  by simp

lemma nearest_double_nonneg: "0 \<le> x \<Longrightarrow> 0 \<le> nearest_double x"
proof (cases "x = 0")
  case True
  then show ?thesis by (simp add: nearest_double_def)
next
  case False
  assume "0 \<le> x"
  then have "of_int 0 \<le> x / 2 powi (binary_exponent x - 52)" by simp
  then have "0 \<le> round_half_even (x / 2 powi (binary_exponent x - 52))" by (rule round_half_even_lower)
  then show ?thesis using False by (simp add: nearest_double_def Let_def)
qed

lemma nearest_double_eq:
  assumes "0 < x" "2 powi e \<le> x" "x < 2 powi (e + 1)"
  shows "nearest_double x = of_int (round_half_even (x / 2 powi (e - 52))) * 2 powi (e - 52)"
  using assms binary_exponent_unique [OF assms] by (simp add: nearest_double_def Let_def)

lemma nearest_double_exact:
  assumes "0 < x" "2 powi e \<le> x" "x < 2 powi (e + 1)" "x = of_int m * 2 powi (e - 52)"
  shows "nearest_double x = x"
proof -
  have "x / 2 powi (e - 52) = of_int m" using assms(4) by simp
  then show ?thesis using nearest_double_eq [OF assms(1-3)] assms(4) by (simp add: round_half_even_of_int)
qed

lemma nearest_double_990: "nearest_double 990 = 990"
  by (rule nearest_double_exact [where e = 9 and m = "990 * 2 ^ 43"]) simp_all

lemma powi_less_imp: "(2::rat) powi a < 2 powi b \<Longrightarrow> a < b"
proof (rule ccontr)
  assume l: "(2::rat) powi a < 2 powi b" and "\<not> a < b"
  then have "b \<le> a" by simp
  then have "(2::rat) powi b \<le> 2 powi a" by (intro power_int_increasing) simp_all
  with l show False by simp
qed

lemma nearest_double_between:
  assumes "0 < x" "of_int lo * 2 powi (binary_exponent x - 52) \<le> x" "x \<le> of_int hi * 2 powi (binary_exponent x - 52)"
  shows "of_int lo * 2 powi (binary_exponent x - 52) \<le> nearest_double x \<and> nearest_double x \<le> of_int hi * 2 powi (binary_exponent x - 52)"
proof -
  let ?ulp = "(2::rat) powi (binary_exponent x - 52)"
  have u: "0 < ?ulp" by simp
  have "of_int lo \<le> x / ?ulp" using assms(2) u by (simp add: pos_le_divide_eq)
  then have 1: "lo \<le> round_half_even (x / ?ulp)" by (rule round_half_even_lower)
  have "x / ?ulp \<le> of_int hi" using assms(3) u by (simp add: pos_divide_le_eq)
  then have 2: "round_half_even (x / ?ulp) \<le> hi" by (rule round_half_even_upper)
  have f: "nearest_double x = of_int (round_half_even (x / ?ulp)) * ?ulp" using assms(1) by (simp add: nearest_double_def Let_def)
  show ?thesis unfolding f using 1 2 u by (simp add: mult_right_mono)
qed

lemma product_range:
  assumes "0 \<le> u" "u \<le> 1 - 1 / 2 ^ 53"
  shows "0 \<le> nearest_double (990 * u) \<and> nearest_double (990 * u) \<le> 990 - 1 / 2 ^ 43"
proof (cases "u = 0")
  case True
  then show ?thesis by (simp add: nearest_double_def)
next
  case False
  define x where "x = 990 * u"
  have x: "0 < x" "x \<le> 990 - 990 / 2 ^ 53" using assms False by (simp_all add: x_def)
  from binary_exponent_bounds [OF x(1)] have b: "2 powi binary_exponent x \<le> x" "x < 2 powi (binary_exponent x + 1)" by simp_all
  have "x < 2 powi 10" using x(2) by simp
  with b(1) have "(2::rat) powi binary_exponent x < 2 powi 10" by (rule le_less_trans)
  then have e: "binary_exponent x \<le> 9" using powi_less_imp [of "binary_exponent x" 10] by simp
  have f: "nearest_double x = of_int (round_half_even (x / 2 powi (binary_exponent x - 52))) * 2 powi (binary_exponent x - 52)"
    using x(1) by (simp add: nearest_double_def Let_def)
  have up: "nearest_double x \<le> 990 - 1 / 2 ^ 43"
  proof (cases "binary_exponent x = 9")
    case True
    have "x / 2 powi (binary_exponent x - 52) = x * 2 ^ 43" by (simp add: True power_int_minus field_simps)
    also have "\<dots> \<le> (990 - 990 / 2 ^ 53) * 2 ^ 43" using x(2) by simp
    also have "\<dots> < of_int (990 * 2 ^ 43 - 1) + 1 / 2" by simp
    finally have "round_half_even (x / 2 powi (binary_exponent x - 52)) \<le> 990 * 2 ^ 43 - 1"
      by (rule round_half_even_below_half)
    then have "(of_int (round_half_even (x / 2 powi (binary_exponent x - 52))) :: rat) \<le> of_int (990 * 2 ^ 43 - 1)"
      by (simp only: of_int_le_iff)
    then have "nearest_double x \<le> of_int (990 * 2 ^ 43 - 1) * 2 powi (binary_exponent x - 52)"
      unfolding f by (intro mult_right_mono) simp_all
    also have "\<dots> = 990 - 1 / 2 ^ 43" by (simp add: True power_int_minus field_simps)
    finally show ?thesis .
  next
    case False
    then have e8: "binary_exponent x + 1 \<le> 9" using e by simp
    have "x / 2 powi (binary_exponent x - 52) < 2 powi (binary_exponent x + 1) / 2 powi (binary_exponent x - 52)"
      using b(2) by (simp add: divide_strict_right_mono)
    also have "\<dots> = 2 powi 53" by (simp flip: power_int_diff)
    finally have "x / 2 powi (binary_exponent x - 52) \<le> of_int (2 ^ 53)" by simp
    then have "round_half_even (x / 2 powi (binary_exponent x - 52)) \<le> 2 ^ 53" by (rule round_half_even_upper)
    then have "(of_int (round_half_even (x / 2 powi (binary_exponent x - 52))) :: rat) \<le> of_int (2 ^ 53)"
      by (simp only: of_int_le_iff)
    then have "nearest_double x \<le> of_int (2 ^ 53) * 2 powi (binary_exponent x - 52)"
      unfolding f by (intro mult_right_mono) simp_all
    also have "\<dots> = 2 powi (binary_exponent x + 1)"
      using power_int_add [of "2::rat" 53 "binary_exponent x - 52"] by (simp add: add.commute)
    also have "\<dots> \<le> 2 powi 9" using e8 by (intro power_int_increasing) simp_all
    also have "\<dots> \<le> 990 - 1 / 2 ^ 43" by simp
    finally show ?thesis .
  qed
  show ?thesis using up nearest_double_nonneg [of x] x(1) by (simp add: x_def)
qed

lemma sum_range:
  assumes "0 \<le> p" "p \<le> 990 - 1 / 2 ^ 43"
  shows "10 \<le> nearest_double (10 + p) \<and> nearest_double (10 + p) \<le> 1000 - 1 / 2 ^ 43"
proof -
  define y where "y = 10 + p"
  have y: "0 < y" "10 \<le> y" "y \<le> 1000 - 1 / 2 ^ 43" using assms by (simp_all add: y_def)
  from binary_exponent_bounds [OF y(1)] have b: "2 powi binary_exponent y \<le> y" "y < 2 powi (binary_exponent y + 1)" by simp_all
  have "y < 2 powi 10" using y(3) by simp
  with b(1) have "(2::rat) powi binary_exponent y < 2 powi 10" by (rule le_less_trans)
  then have e9: "binary_exponent y \<le> 9" using powi_less_imp [of "binary_exponent y" 10] by simp
  have "(2::rat) powi 3 \<le> y" using y(2) by simp
  from this b(2) have "(2::rat) powi 3 < 2 powi (binary_exponent y + 1)" by (rule le_less_trans)
  then have e3: "3 \<le> binary_exponent y" using powi_less_imp [of 3 "binary_exponent y + 1"] by simp
  consider "binary_exponent y = 3" | "binary_exponent y = 4" | "binary_exponent y = 5" | "binary_exponent y = 6" | "binary_exponent y = 7" | "binary_exponent y = 8" | "binary_exponent y = 9"
    using e3 e9 by linarith
  then have "10 \<le> nearest_double y \<and> nearest_double y \<le> 1000 - 1 / 2 ^ 43"
  proof cases
    case 1
    show ?thesis using nearest_double_between [OF y(1), of "10 * 2 ^ 49" "(1000 * 2 ^ 43 - 1) * 2 ^ 6"] y(2,3)
      by (simp add: 1 power_int_minus field_simps)
  next
    case 2
    show ?thesis using nearest_double_between [OF y(1), of "10 * 2 ^ 48" "(1000 * 2 ^ 43 - 1) * 2 ^ 5"] y(2,3)
      by (simp add: 2 power_int_minus field_simps)
  next
    case 3
    show ?thesis using nearest_double_between [OF y(1), of "10 * 2 ^ 47" "(1000 * 2 ^ 43 - 1) * 2 ^ 4"] y(2,3)
      by (simp add: 3 power_int_minus field_simps)
  next
    case 4
    show ?thesis using nearest_double_between [OF y(1), of "10 * 2 ^ 46" "(1000 * 2 ^ 43 - 1) * 2 ^ 3"] y(2,3)
      by (simp add: 4 power_int_minus field_simps)
  next
    case 5
    show ?thesis using nearest_double_between [OF y(1), of "10 * 2 ^ 45" "(1000 * 2 ^ 43 - 1) * 2 ^ 2"] y(2,3)
      by (simp add: 5 power_int_minus field_simps)
  next
    case 6
    show ?thesis using nearest_double_between [OF y(1), of "10 * 2 ^ 44" "(1000 * 2 ^ 43 - 1) * 2"] y(2,3)
      by (simp add: 6 power_int_minus field_simps)
  next
    case 7
    show ?thesis using nearest_double_between [OF y(1), of "10 * 2 ^ 43" "1000 * 2 ^ 43 - 1"] y(2,3)
      by (simp add: 7 power_int_minus field_simps)
  qed
  then show ?thesis by (simp add: y_def)
qed

lemma uniform_range:
  assumes "0 \<le> u" "u \<le> 1 - 1 / 2 ^ 53"
  shows "10 \<le> uniform 10 1000 u \<and> uniform 10 1000 u < 1000"
proof -
  have "nearest_double (1000 - 10) = 990" using nearest_double_990 by simp
  then have eq: "uniform 10 1000 u = nearest_double (10 + nearest_double (990 * u))" by (simp add: uniform_def)
  from product_range [OF assms] have "0 \<le> nearest_double (990 * u)" "nearest_double (990 * u) \<le> 990 - 1 / 2 ^ 43" by simp_all
  from sum_range [OF this] show ?thesis by (simp add: eq)
qed

lemma random_random_range: "0 \<le> random_random b \<and> random_random b \<le> 1 - 1 / 2 ^ 53"
proof -
  have "0 \<le> b mod 2 ^ 53" "b mod 2 ^ 53 \<le> 2 ^ 53 - 1" by simp_all
  then have "(0::rat) \<le> of_int (b mod 2 ^ 53)" "(of_int (b mod 2 ^ 53) :: rat) \<le> of_int (2 ^ 53 - 1)"
    by (simp, metis of_int_le_iff)
  then show ?thesis by (simp add: random_random_def field_simps)
qed


lemma order_amount_range: "1000 \<le> order_amount e i \<and> order_amount e i \<le> 100000"
proof -
  let ?x = "uniform 10 1000 (random_random (random_bits e i))"
  have x: "10 \<le> ?x \<and> ?x < 1000"
    using random_random_range [of "random_bits e i"] by (intro uniform_range) simp_all
  have "of_int 1000 \<le> ?x * 100" "?x * 100 \<le> of_int 100000" using x by simp_all
  then show ?thesis
    unfolding order_amount_def round2_def
    by (intro conjI round_half_even_lower round_half_even_upper)
qed

lemma order_date_range: "today e - 30 \<le> order_date e i \<and> order_date e i \<le> today e"
proof -
  have "0 \<le> date_bits e i mod 31" "date_bits e i mod 31 < 31" by simp_all
  then show ?thesis by (simp add: order_date_def date_between_def parse_date_def)
qed

subsection \<open>The frame and its rows\<close>

lemma length_py_range: "length (py_range a b) = nat (b - a)"
  by (simp add: py_range_def)

lemma py_range_nth: "i < nat (b - a) \<Longrightarrow> py_range a b ! i = a + int i"
  by (simp add: py_range_def)

lemma py_range_upto: "py_range a b = [a..b - 1]"
proof (rule nth_equalityI)
  show "length (py_range a b) = length [a..b - 1]" by (simp add: py_range_def)
next
  fix i assume "i < length (py_range a b)"
  then show "py_range a b ! i = [a..b - 1] ! i" by (simp add: py_range_def)
qed

lemma data_lengths: "c \<in> set (data e n) \<Longrightarrow> length (snd c) = nat n"
  by (auto simp: data_def length_py_range)

lemma DataFrame_data: "DataFrame (data e n) = Inr (data e n)"
proof -
  have "length (snd (hd (data e n))) = nat n" by (simp add: data_def length_py_range)
  then show ?thesis by (simp add: DataFrame_def list_all_iff data_lengths)
qed

lemma csv_data_eq: "csv_data e n = Inr (to_csv (data e n))"
  by (simp add: csv_data_def DataFrame_data)

lemma nrows_data: "nrows (data e n) = nat n"
  by (simp add: nrows_def data_def length_py_range)

lemma data_row: "i < nat n \<Longrightarrow> map (\<lambda>c. format_cell (snd c ! i)) (data e n) = csv_row e i"
  by (simp add: data_def csv_row_def format_cell_def py_range_nth length_py_range
      order_amount_def order_date_def)

lemma csv_rows_data: "csv_rows (data e n) = header # map (csv_row e) [0..<nat n]"
proof -
  have "map (\<lambda>i. map (\<lambda>c. format_cell (snd c ! i)) (data e n)) [0..<nat n] = map (csv_row e) [0..<nat n]"
    by (rule map_cong) (simp_all add: data_row)
  moreover have "map fst (data e n) = header" by (simp add: data_def header_def)
  ultimately show ?thesis by (simp add: csv_rows_def nrows_data)
qed

lemma payload_rows_eq: "payload_rows e n = header # map (csv_row e) [0..<nat n]"
proof -
  have "\<forall>r \<in> set (csv_rows (data e n)). r \<noteq> []"
    by (auto simp: csv_rows_data header_def csv_row_def)
  then have "read_csv (to_csv (data e n)) = csv_rows (data e n)"
    unfolding to_csv_def by (rule read_csv_writerows)
  then show ?thesis by (simp add: payload_rows_def csv_data_eq csv_rows_data)
qed

lemma writerow_header:
  "writerow header = ''order_id,customer_name,order_amount,order_date,product'' @ [CHR 0x0A]"
  by (simp add: writerow_def header_def field_out_def special_def)

subsection \<open>The task chain\<close>

lemma dag_eq:
  "dag = [(start_task, generate_sales_data), (generate_sales_data, load_to_bigquery),
          (load_to_bigquery, insert_sales_orders_task), (insert_sales_orders_task, call_procedure_task),
          (call_procedure_task, transform_bq_data), (transform_bq_data, transform_bq_data_2),
          (transform_bq_data_2, end_task)]"
  by (simp add: dag_def rshift_def)

lemma next_task:
  assumes "k \<le> 8" "t \<notin> set (take k chain)" "upstream_done dag (take k chain) t"
  shows "k < 8 \<and> t = chain ! k"
proof -
  consider "k = 0" | "k = 1" | "k = 2" | "k = 3" | "k = 4" | "k = 5" | "k = 6" | "k = 7" | "k = 8"
    using assms(1) by linarith
  then show ?thesis
  proof cases
    case 1 then show ?thesis using assms(2,3) by (cases t; simp add: chain_def dag_eq upstream_done_def)
  next
    case 2 then show ?thesis using assms(2,3) by (cases t; simp add: chain_def dag_eq upstream_done_def)
  next
    case 3 then show ?thesis using assms(2,3) by (cases t; simp add: chain_def dag_eq upstream_done_def)
  next
    case 4 then show ?thesis using assms(2,3) by (cases t; simp add: chain_def dag_eq upstream_done_def)
  next
    case 5 then show ?thesis using assms(2,3) by (cases t; simp add: chain_def dag_eq upstream_done_def)
  next
    case 6 then show ?thesis using assms(2,3) by (cases t; simp add: chain_def dag_eq upstream_done_def)
  next
    case 7 then show ?thesis using assms(2,3) by (cases t; simp add: chain_def dag_eq upstream_done_def)
  next
    case 8 then show ?thesis using assms(2,3) by (cases t; simp add: chain_def dag_eq upstream_done_def)
  next
    case 9 then show ?thesis using assms(2,3) by (cases t; simp add: chain_def dag_eq upstream_done_def)
  qed
qed

lemma scheduled_follows_chain:
  "scheduled dag (take k chain) run \<Longrightarrow> k \<le> 8 \<Longrightarrow> run = take (length run) (drop k chain)"
proof (induction run arbitrary: k)
  case Nil
  then show ?case by simp
next
  case (Cons t ts)
  have len: "length chain = 8" by (simp add: chain_def)
  from Cons.prems have t: "t \<notin> set (take k chain)" "upstream_done dag (take k chain) t"
    and rest: "scheduled dag (take k chain @ [t]) ts" by simp_all
  from next_task [OF Cons.prems(2) t] have k: "k < 8" and tk: "t = chain ! k" by simp_all
  have "take k chain @ [t] = take (Suc k) chain" using k len tk by (simp add: take_Suc_conv_app_nth)
  with rest have "ts = take (length ts) (drop (Suc k) chain)" using Cons.IH [of "Suc k"] k by simp
  moreover have "drop k chain = t # drop (Suc k) chain" using k len tk by (simp add: Cons_nth_drop_Suc)
  ultimately show ?case by simp
qed

text \<open>
  Claim C9. In every run of the job the tasks start in the order of the chain: start,
  generate and upload, load into the warehouse, create the procedure, call it, then the two
  queries that write derived tables, then end. A sequence of task starts that the
  scheduler allows (each task once, and only after its upstream tasks) is an initial part
  of the chain, so no later step starts before an earlier one. The second part lists what
  the tasks of the chain run, in order.
\<close>

theorem c9_task_order:
  assumes "scheduled dag [] run"
  shows "run = take (length run) chain
         \<and> map operator_of chain =
             [EmptyOperator, PythonOperator (Some 500), LoadJob,
              QueryJob ''insert_sales_orders'' None, QueryJob ''call_procedure'' None,
              QueryJob ''transform_bq_qry'' (Some ''TRANSFORMED_TABLE''),
              QueryJob ''transform_bq_qry_2'' (Some ''AMOUNT_TABLE''), EmptyOperator]"
proof
  show "run = take (length run) chain"
    using assms scheduled_follows_chain [of 0 run] by simp
qed (simp add: chain_def)

text \<open>The whole chain is such a sequence.\<close>

theorem c9_task_order_witness: "scheduled dag [] chain \<and> chain = take (length chain) chain"
proof -
  have h: "scheduled dag [] chain" by (simp add: chain_def dag_eq upstream_done_def)
  show ?thesis using h c9_task_order [OF h] by simp
qed

subsection \<open>The payload: rows and order ids\<close>

text \<open>
  Claim C1. For every \<open>N \<ge> 0\<close> the payload is the header row followed by exactly \<open>N\<close>
  data rows: it is the text of these rows as the writer emits them, and reading it back
  gives the header and \<open>N\<close> rows. For \<open>N = 0\<close> the payload is the header line alone.
\<close>

theorem c1_rows:
  assumes "0 \<le> N"
  shows "(\<exists>text rows. csv_data e N = Inr text \<and> text = writerow header @ concat (map writerow rows)
            \<and> read_csv text = header # rows \<and> int (length rows) = N)
         \<and> csv_data e 0 = Inr (''order_id,customer_name,order_amount,order_date,product'' @ [CHR 0x0A])"
proof -
  let ?rows = "map (csv_row e) [0..<nat N]"
  have "csv_data e N = Inr (writerow header @ concat (map writerow ?rows))"
    by (simp add: csv_data_eq to_csv_def csv_rows_data)
  moreover have "read_csv (writerow header @ concat (map writerow ?rows)) = header # ?rows"
    using payload_rows_eq [of e N] by (simp add: payload_rows_def csv_data_eq to_csv_def csv_rows_data)
  moreover have "int (length ?rows) = N" using assms by simp
  moreover have "csv_data e 0 = Inr (''order_id,customer_name,order_amount,order_date,product'' @ [CHR 0x0A])"
    using writerow_header by (simp add: csv_data_eq to_csv_def csv_rows_data)
  ultimately show ?thesis by blast
qed

text \<open>Three orders in the sample environment.\<close>

theorem c1_rows_witness:
  "(0::int) \<le> 3 \<and> (\<exists>text rows. csv_data sample_env 3 = Inr text \<and> text = writerow header @ concat (map writerow rows)
            \<and> read_csv text = header # rows \<and> int (length rows) = 3)"
proof -
  have h: "(0::int) \<le> 3" by simp
  show ?thesis using h c1_rows [OF h, of sample_env] by simp
qed

text \<open>
  Claim C2. For every \<open>N \<ge> 1\<close> the order ids are exactly \<open>1, 2, ..., N\<close> in generation
  order, and the first field of the \<open>k\<close>-th data row of the payload is \<open>k\<close> in decimal.
\<close>

theorem c2_order_ids:
  assumes "1 \<le> N"
  shows "map_of (data e N) ''order_id'' = Some (map PyInt [1..N])
         \<and> (\<exists>text rows. csv_data e N = Inr text \<and> read_csv text = header # rows
               \<and> map hd rows = map str_int [1..N])"
proof -
  have ids: "py_range 1 (N + 1) = [1..N]" by (simp add: py_range_upto)
  have "map_of (data e N) ''order_id'' = Some (map PyInt [1..N])"
    by (simp add: data_def ids)
  moreover have "csv_data e N = Inr (to_csv (data e N))" by (rule csv_data_eq)
  moreover have "read_csv (to_csv (data e N)) = header # map (csv_row e) [0..<nat N]"
    using payload_rows_eq [of e N] by (simp add: payload_rows_def csv_data_eq)
  moreover have "map hd (map (csv_row e) [0..<nat N]) = map str_int [1..N]"
  proof -
    have "map hd (map (csv_row e) [0..<nat N]) = map str_int (py_range 1 (N + 1))"
      by (simp add: py_range_def csv_row_def)
    then show ?thesis by (simp add: ids)
  qed
  ultimately show ?thesis by blast
qed

text \<open>
  For three orders the payload has four rows; the first field of the second row is \<open>1\<close>
  and that of the fourth row is \<open>3\<close>.
\<close>

theorem c2_order_ids_witness:
  "(1::int) \<le> 3 \<and> map_of (data sample_env 3) ''order_id'' = Some [PyInt 1, PyInt 2, PyInt 3]
   \<and> length (payload_rows sample_env 3) = 4
   \<and> hd (payload_rows sample_env 3 ! 1) = ''1'' \<and> hd (payload_rows sample_env 3 ! 3) = ''3''"
proof -
  have h: "(1::int) \<le> 3" by simp
  have u: "[1..3::int] = [1, 2, 3]" by code_simp
  from c2_order_ids [OF h, of sample_env] obtain payload rows where
    ids: "map_of (data sample_env 3) ''order_id'' = Some (map PyInt [1..3])"
    and t: "csv_data sample_env 3 = Inr payload" "read_csv payload = header # rows"
    and r: "map hd rows = map str_int [1..3]" by blast
  have p: "payload_rows sample_env 3 = header # rows" using t by (simp add: payload_rows_def)
  have l: "length rows = 3" using arg_cong [OF r, of length] by (simp add: u)
  have s: "str_int 1 = ''1''" "str_int 3 = ''3''" by code_simp+
  have "hd (rows ! 0) = ''1''" "hd (rows ! 2) = ''3''"
    using arg_cong [OF r, of "\<lambda>xs. xs ! 0"] arg_cong [OF r, of "\<lambda>xs. xs ! 2"] l by (simp_all add: u s)
  then show ?thesis using h ids p l by (simp add: u)
qed

subsection \<open>Dates and fields of a batch\<close>

lemma order_date_column:
  "map_of (data e N) ''order_date'' = Some (map (\<lambda>i. PyDate (order_date e i)) [0..<nat N])"
  by (simp add: data_def py_range_def order_date_def comp_def)

text \<open>
  Claim C4. Every order date of a batch lies from 30 days before the current date through
  the current date: the \<open>order_date\<close> list has \<open>N\<close> cells, each a date in that range.
\<close>

theorem c4_order_dates:
  "\<exists>col. map_of (data e N) ''order_date'' = Some col \<and> length col = nat N
     \<and> (\<forall>c \<in> set col. \<exists>d. c = PyDate d \<and> today e - 30 \<le> d \<and> d \<le> today e)"
  using order_date_range [of e] by (auto simp: order_date_column)

text \<open>Two orders generated on 2026-11-04 (day 739924).\<close>

theorem c4_order_dates_witness:
  "\<exists>col. map_of (data sample_env 2) ''order_date'' = Some col \<and> length col = 2
     \<and> (\<forall>c \<in> set col. \<exists>d. c = PyDate d \<and> 739894 \<le> d \<and> d \<le> 739924)"
  using c4_order_dates [of sample_env 2] by (simp add: sample_env_def)

text \<open>
  Claim C10. For \<open>N \<ge> 0\<close> each of the five lists has length \<open>N\<close>; their names are the
  names of the load schema, whose five fields are all \<open>REQUIRED\<close>; and every data row of
  the payload has exactly five fields, none empty, provided Faker's names and words are
  not empty.
\<close>

theorem c10_five_fields:
  assumes "0 \<le> N" "\<forall>i. fake_name e i \<noteq> []" "\<forall>i. fake_word e i \<noteq> []"
  shows "length (data e N) = 5 \<and> (\<forall>c \<in> set (data e N). int (length (snd c)) = N)
         \<and> map fst (data e N) = map name schema_fields
         \<and> (\<forall>f \<in> set schema_fields. mode f = ''REQUIRED'')
         \<and> (\<exists>text. csv_data e N = Inr text
               \<and> (\<forall>row \<in> set (tl (read_csv text)). length row = 5 \<and> (\<forall>f \<in> set row. f \<noteq> [])))"
proof -
  have r: "read_csv (to_csv (data e N)) = header # map (csv_row e) [0..<nat N]"
    using payload_rows_eq [of e N] by (simp add: payload_rows_def csv_data_eq)
  have row: "length (csv_row e i) = 5 \<and> (\<forall>f \<in> set (csv_row e i). f \<noteq> [])" for i
    using assms(2,3)
    by (simp add: csv_row_def str_int_nonempty float_repr_nonempty isoformat_nonempty)
  have "length (data e N) = 5" by (simp add: data_def)
  moreover have "\<forall>c \<in> set (data e N). int (length (snd c)) = N"
    using assms(1) by (simp add: data_lengths)
  moreover have "map fst (data e N) = map name schema_fields"
    by (simp add: data_def schema_fields_def)
  moreover have "\<forall>f \<in> set schema_fields. mode f = ''REQUIRED''"
    by (simp add: schema_fields_def)
  moreover have "\<forall>row \<in> set (tl (read_csv (to_csv (data e N)))). length row = 5 \<and> (\<forall>f \<in> set row. f \<noteq> [])"
    using row by (auto simp: r)
  ultimately show ?thesis by (simp add: csv_data_eq)
qed

text \<open>Three orders in the sample environment.\<close>

theorem c10_five_fields_witness:
  "(0::int) \<le> 3 \<and> (\<forall>i. fake_name sample_env i \<noteq> []) \<and> (\<forall>i. fake_word sample_env i \<noteq> [])
   \<and> length (data sample_env 3) = 5 \<and> map (\<lambda>c. int (length (snd c))) (data sample_env 3) = [3, 3, 3, 3, 3]
   \<and> (\<exists>text. csv_data sample_env 3 = Inr text
               \<and> (\<forall>row \<in> set (tl (read_csv text)). length row = 5 \<and> (\<forall>f \<in> set row. f \<noteq> [])))"
proof -
  have h: "(0::int) \<le> 3" "\<forall>i. fake_name sample_env i \<noteq> []" "\<forall>i. fake_word sample_env i \<noteq> []"
    by (simp_all add: sample_env_def)
  from c10_five_fields [OF h]
  have l: "\<forall>c \<in> set (data sample_env 3). int (length (snd c)) = 3"
    and r: "\<exists>text. csv_data sample_env 3 = Inr text
               \<and> (\<forall>row \<in> set (tl (read_csv text)). length row = 5 \<and> (\<forall>f \<in> set row. f \<noteq> []))"
    by simp_all
  have "map (\<lambda>c. int (length (snd c))) (data sample_env 3) = map (\<lambda>c. 3) (data sample_env 3)"
    using l by (intro map_cong) simp_all
  also have "\<dots> = [3, 3, 3, 3, 3]" by (simp add: data_def)
  finally show ?thesis using h r by (simp add: data_def)
qed

subsection \<open>How dates and amounts are written\<close>

text \<open>One order in the sample environment, evaluated.\<close>

lemma sample_amount: "order_amount sample_env 0 = 25750"
proof -
  have u: "random_random (random_bits sample_env 0) = 1 / 4"
    by (simp add: sample_env_def random_random_def)
  have p: "nearest_double (495 / 2) = 495 / 2"
    by (rule nearest_double_exact [where e = 7 and m = "495 * 2 ^ 44"]) simp_all
  have x: "nearest_double (515 / 2) = 515 / 2"
    by (rule nearest_double_exact [where e = 8 and m = "515 * 2 ^ 43"]) simp_all
  have s: "uniform 10 1000 (1 / 4) = 515 / 2"
    using nearest_double_990 by (simp add: uniform_def p x)
  have "order_amount sample_env 0 = round_half_even (515 / 2 * 100)"
    by (simp only: order_amount_def u round2_def s)
  also have "\<dots> = 25750" by (simp add: round_half_even_def)
  finally show ?thesis .
qed

lemma sample_date: "order_date sample_env 0 = 739894"
  by (simp add: order_date_def sample_env_def date_between_def parse_date_def)

lemma sample_ymd: "ord2ymd 739894 = (2026, 10, 5)"
  by (simp add: ord2ymd_def DI_simps DAYS_BEFORE_MONTH_def DAYS_IN_MONTH_def)

lemma sample_row: "csv_row sample_env 0 = [''1'', ''Ann Lee'', ''257.5'', ''2026-10-05'', ''table'']"
proof -
  have "float_repr 25750 = ''257.5''" by (simp add: float_repr_def str_nat.simps digit_char_def)
  moreover have "isoformat 739894 = ''2026-10-05''"
    by (simp add: isoformat_def sample_ymd fmt0d_def str_nat.simps digit_char_def)
  moreover have "str_int 1 = ''1''" by (simp add: str_int_def str_nat.simps digit_char_def)
  ultimately show ?thesis by (simp add: csv_row_def sample_amount sample_date) (simp add: sample_env_def)
qed

lemma sample_payload:
  "csv_data sample_env 1 =
     Inr (''order_id,customer_name,order_amount,order_date,product'' @ [CHR 0x0A] @
          ''1,Ann Lee,257.5,2026-10-05,table'' @ [CHR 0x0A])"
proof -
  have "writerow [''1'', ''Ann Lee'', ''257.5'', ''2026-10-05'', ''table'']
          = ''1,Ann Lee,257.5,2026-10-05,table'' @ [CHR 0x0A]"
    by (simp add: writerow_def field_out_def special_def)
  then show ?thesis using writerow_header
    by (simp add: csv_data_eq to_csv_def csv_rows_data sample_row)
qed

text \<open>
  Claim C5 says that every amount is written with exactly two decimal places. The sample
  batch of one order has the uniform sample 257.5; rounding leaves it unchanged and the
  payload holds \<open>257.5\<close>, with one decimal place.
\<close>

theorem c5_two_decimals_counterexample:
  "csv_data sample_env 1 =
     Inr (''order_id,customer_name,order_amount,order_date,product'' @ [CHR 0x0A] @
          ''1,Ann Lee,257.5,2026-10-05,table'' @ [CHR 0x0A])
   \<and> payload_rows sample_env 1 ! 1 ! 2 = ''257.5''
   \<and> decimal_places (payload_rows sample_env 1 ! 1 ! 2) = 1"
  using sample_payload by (simp add: payload_rows_eq sample_row decimal_places_def)

text \<open>
  Claim C5, amended. With the current date from 0001-01-31 through 9999-12-31, in every
  data row the date field has the form \<open>YYYY-MM-DD\<close>, and the amount field is a decimal
  numeral with two decimal places, or with one when the amount is a whole number of
  tenths (\<open>257.5\<close>, \<open>505.0\<close>).
\<close>

theorem c5_rendering:
  assumes "31 \<le> today e" "today e \<le> 3652059" "i < nat N"
  shows "\<exists>text. csv_data e N = Inr text
           \<and> is_iso_date (read_csv text ! Suc i ! 3)
           \<and> is_decimal (read_csv text ! Suc i ! 2)
           \<and> decimal_places (read_csv text ! Suc i ! 2) = (if order_amount e i mod 10 = 0 then 1 else 2)"
proof -
  have r: "read_csv (to_csv (data e N)) = header # map (csv_row e) [0..<nat N]"
    using payload_rows_eq [of e N] by (simp add: payload_rows_def csv_data_eq)
  have row: "read_csv (to_csv (data e N)) ! Suc i = csv_row e i" using assms(3) by (simp add: r)
  have a: "0 \<le> order_amount e i" using order_amount_range [of e i] by simp
  have d: "1 \<le> order_date e i" "order_date e i \<le> 3652059"
    using order_date_range [of e i] assms(1,2) by simp_all
  show ?thesis
    using isoformat_shape [OF d] float_repr_decimal [OF a] float_repr_places [OF a]
    by (intro exI [of _ "to_csv (data e N)"]) (simp add: csv_data_eq row csv_row_def)
qed

text \<open>The third of three orders in the sample environment.\<close>

theorem c5_rendering_witness:
  "31 \<le> today sample_env \<and> today sample_env \<le> 3652059 \<and> 2 < nat 3
   \<and> (\<exists>text. csv_data sample_env 3 = Inr text
           \<and> is_iso_date (read_csv text ! 3 ! 3)
           \<and> is_decimal (read_csv text ! 3 ! 2)
           \<and> decimal_places (read_csv text ! 3 ! 2) = (if order_amount sample_env 2 mod 10 = 0 then 1 else 2))"
proof -
  have h: "31 \<le> today sample_env" "today sample_env \<le> 3652059" "2 < nat 3"
    by (simp_all add: sample_env_def)
  show ?thesis using h c5_rendering [OF h] by (simp add: numeral_3_eq_3)
qed



subsection \<open>What the function does to the world\<close>

text \<open>
  Claim C6 says that the function has no effect beyond returning the payload. Run with
  \<open>num_orders = 0\<close> on the empty world, it returns \<open>None\<close> and leaves an object at the
  given bucket and path and a printed line, neither of which was there before.
\<close>

theorem c6_side_effects_counterexample:
  "\<not> isl (generate_and_upload_sales_data sample_env ''bucket'' ''sales.csv'' (Some 0) empty_world)
   \<and> fst (projr (generate_and_upload_sales_data sample_env ''bucket'' ''sales.csv'' (Some 0) empty_world)) = None
   \<and> gcs (snd (projr (generate_and_upload_sales_data sample_env ''bucket'' ''sales.csv'' (Some 0) empty_world)))
        (''bucket'', ''sales.csv'')
      = Some \<lparr>content = ''order_id,customer_name,order_amount,order_date,product'' @ [CHR 0x0A],
              content_type = ''text/csv''\<rparr>
   \<and> stdout (snd (projr (generate_and_upload_sales_data sample_env ''bucket'' ''sales.csv'' (Some 0) empty_world)))
      = [''Data uploaded to gs://bucket/sales.csv'']
   \<and> gcs empty_world (''bucket'', ''sales.csv'') = None \<and> stdout empty_world = []"
proof -
  have "csv_data sample_env 0 = Inr (''order_id,customer_name,order_amount,order_date,product'' @ [CHR 0x0A])"
    using writerow_header by (simp add: csv_data_eq to_csv_def csv_rows_data)
  then show ?thesis
    by (simp add: generate_and_upload_sales_data_def print_def upload_from_string_def empty_world_def)
qed

text \<open>
  Claim C6, amended. The function returns nothing; its effects are exactly to store the
  payload as the object at the given bucket and path, with content type \<open>text/csv\<close>, and
  then to print one line naming that object. Every other object and every earlier line
  of output is left as it was.
\<close>

theorem c6_effects:
  assumes "generate_and_upload_sales_data e bucket_name gcs_path num_orders_arg w = Inr (r, w')"
  shows "\<exists>text. csv_data e (case num_orders_arg of None \<Rightarrow> 500 | Some n \<Rightarrow> n) = Inr text
           \<and> r = None
           \<and> w' = w\<lparr>gcs := (gcs w)((bucket_name, gcs_path) \<mapsto> \<lparr>content = text, content_type = ''text/csv''\<rparr>),
                     stdout := stdout w @ [''Data uploaded to gs://'' @ bucket_name @ ''/'' @ gcs_path]\<rparr>"
  using assms
  by (auto simp: generate_and_upload_sales_data_def csv_data_eq print_def upload_from_string_def
      split: option.splits)

text \<open>The run on the empty world, again.\<close>

theorem c6_effects_witness:
  "generate_and_upload_sales_data sample_env ''bucket'' ''sales.csv'' (Some 0) empty_world =
     Inr (None, empty_world\<lparr>gcs := (gcs empty_world)((''bucket'', ''sales.csv'') \<mapsto>
                           \<lparr>content = to_csv (data sample_env 0), content_type = ''text/csv''\<rparr>),
                       stdout := stdout empty_world @ [''Data uploaded to gs://'' @ ''bucket'' @ ''/'' @ ''sales.csv'']\<rparr>)
   \<and> (\<exists>text. csv_data sample_env 0 = Inr text)"
proof -
  have h: "generate_and_upload_sales_data sample_env ''bucket'' ''sales.csv'' (Some 0) empty_world =
     Inr (None, empty_world\<lparr>gcs := (gcs empty_world)((''bucket'', ''sales.csv'') \<mapsto>
                           \<lparr>content = to_csv (data sample_env 0), content_type = ''text/csv''\<rparr>),
                       stdout := stdout empty_world @ [''Data uploaded to gs://'' @ ''bucket'' @ ''/'' @ ''sales.csv'']\<rparr>)"
    by (simp add: generate_and_upload_sales_data_def csv_data_eq print_def upload_from_string_def
        empty_world_def)
  show ?thesis using h c6_effects [OF h] by auto
qed

text \<open>
  Claim C7 says that the function runs to completion without an error for every
  \<open>N \<ge> 0\<close>. Called for one order where the storage client finds no credentials, it ends
  with that client's exception.
\<close>

theorem c7_upload_failure_counterexample:
  "generate_and_upload_sales_data sample_env ''bucket'' ''sales.csv'' (Some 1) no_credentials_world
     = Inl (StorageError ''DefaultCredentialsError'')"
  by (simp add: generate_and_upload_sales_data_def csv_data_eq upload_from_string_def
      no_credentials_world_def)

text \<open>
  Claim C7, amended. Generating and serializing the batch raises no error, for any
  \<open>num_orders\<close>: the five lists always have the same length, so \<open>DataFrame\<close> accepts them.
  The function runs to completion exactly when the upload meets no exception of the
  storage client, and otherwise ends with that exception.
\<close>

theorem c7_total_unless_upload_fails:
  "(\<exists>text. csv_data e N = Inr text)
   \<and> ((\<exists>r w'. generate_and_upload_sales_data e bucket_name gcs_path num_orders_arg w = Inr (r, w'))
        \<longleftrightarrow> storage_fault w (bucket_name, gcs_path) = None)
   \<and> (generate_and_upload_sales_data e bucket_name gcs_path num_orders_arg w = Inl err
        \<longleftrightarrow> storage_fault w (bucket_name, gcs_path) = Some err)"
  by (auto simp: generate_and_upload_sales_data_def csv_data_eq upload_from_string_def
      split: option.splits)

text \<open>Three orders, uploaded to a store that accepts them.\<close>

theorem c7_total_unless_upload_fails_witness:
  "storage_fault empty_world (''bucket'', ''sales.csv'') = None
   \<and> (\<exists>r w'. generate_and_upload_sales_data sample_env ''bucket'' ''sales.csv'' (Some 3) empty_world
                = Inr (r, w'))"
proof -
  have h: "storage_fault empty_world (''bucket'', ''sales.csv'') = None" by (simp add: empty_world_def)
  show ?thesis
    using h c7_total_unless_upload_fails [of sample_env 3 "''bucket''" "''sales.csv''" "Some 3" empty_world]
    by simp
qed

subsection \<open>The payload and where it goes\<close>

text \<open>
  Claim C8 says that the function returns the serialized records. Run for one order in
  the sample environment, the call evaluates to \<open>None\<close>; the payload exists, but only as
  the content of the uploaded object.
\<close>

theorem c8_returns_counterexample:
  "fst (projr (generate_and_upload_sales_data sample_env ''bucket'' ''sales.csv'' (Some 1) empty_world)) = None
   \<and> csv_data sample_env 1 =
       Inr (''order_id,customer_name,order_amount,order_date,product'' @ [CHR 0x0A] @
            ''1,Ann Lee,257.5,2026-10-05,table'' @ [CHR 0x0A])
   \<and> content (the (gcs (snd (projr (generate_and_upload_sales_data sample_env ''bucket'' ''sales.csv''
                                      (Some 1) empty_world))) (''bucket'', ''sales.csv'')))
       = ''order_id,customer_name,order_amount,order_date,product'' @ [CHR 0x0A] @
         ''1,Ann Lee,257.5,2026-10-05,table'' @ [CHR 0x0A]"
  using sample_payload
  by (simp add: generate_and_upload_sales_data_def print_def upload_from_string_def empty_world_def)

text \<open>
  Claim C8, amended. For target count \<open>N\<close> (500 when the argument is omitted) the
  function serializes the \<open>N\<close> records as comma-separated text of \<open>N + 1\<close> rows, uploads
  that text (unless the storage client raises) and returns nothing: the header row lists \<open>order_id, customer_name,
  order_amount, order_date, product\<close>, the keys of \<open>data\<close> in order, and data row \<open>i\<close>
  gives the \<open>i\<close>-th cell of each list in that same order.
\<close>

theorem c8_payload_format:
  "\<exists>text. csv_data e N = Inr text
     \<and> generate_and_upload_sales_data e bucket_name gcs_path (Some N) w =
         (case upload_from_string bucket_name gcs_path text ''text/csv'' w of
            Inl err \<Rightarrow> Inl err
          | Inr w1 \<Rightarrow> Inr (None, print (''Data uploaded to gs://'' @ bucket_name @ ''/'' @ gcs_path) w1))
     \<and> generate_and_upload_sales_data e bucket_name gcs_path None w =
         generate_and_upload_sales_data e bucket_name gcs_path (Some 500) w
     \<and> length (read_csv text) = nat N + 1
     \<and> hd (read_csv text) = [''order_id'', ''customer_name'', ''order_amount'', ''order_date'', ''product'']
     \<and> map fst (data e N) = hd (read_csv text)
     \<and> (\<forall>i < nat N. read_csv text ! Suc i = map (\<lambda>c. format_cell (snd c ! i)) (data e N))"
proof -
  have r: "read_csv (to_csv (data e N)) = header # map (csv_row e) [0..<nat N]"
    using payload_rows_eq [of e N] by (simp add: payload_rows_def csv_data_eq)
  have "map fst (data e N) = header" by (simp add: data_def header_def)
  moreover have "\<forall>i < nat N. read_csv (to_csv (data e N)) ! Suc i = map (\<lambda>c. format_cell (snd c ! i)) (data e N)"
    by (simp add: r data_row)
  ultimately show ?thesis
    by (intro exI [of _ "to_csv (data e N)"])
       (simp add: csv_data_eq generate_and_upload_sales_data_def r header_def)
qed

text \<open>Three orders in the sample environment.\<close>

theorem c8_payload_format_witness:
  "\<exists>text. csv_data sample_env 3 = Inr text
     \<and> length (read_csv text) = 4
     \<and> hd (read_csv text) = [''order_id'', ''customer_name'', ''order_amount'', ''order_date'', ''product'']
     \<and> (\<forall>i < 3. read_csv text ! Suc i = map (\<lambda>c. format_cell (snd c ! i)) (data sample_env 3))"
proof -
  from c8_payload_format [of sample_env 3 "''bucket''" "''sales.csv''" empty_world]
  obtain payload where "csv_data sample_env 3 = Inr payload"
    and "length (read_csv payload) = nat 3 + 1"
    and "hd (read_csv payload) = [''order_id'', ''customer_name'', ''order_amount'', ''order_date'', ''product'']"
    and "\<forall>i < nat 3. read_csv payload ! Suc i = map (\<lambda>c. format_cell (snd c ! i)) (data sample_env 3)"
    by blast
  then show ?thesis by (intro exI [of _ payload]) simp
qed

end
